theory Spec2Isabelle
  imports Complex_Main
begin

section \<open>Data model (models.py, the jobs table of storage.py)\<close>

text \<open>
  Timestamps are stored as the ISO-8601 text of a UTC datetime and compared as text by the
  store; that text order is the chronological order, so a timestamp is modelled by the
  number of seconds since 0001-01-01T00:00:00. The clock \<open>utcnow()\<close> lives in a module that
  is not part of the sources at hand: every reading of it is a parameter named \<open>now\<close>.
\<close>

type_synonym timestamp = real

datatype job_state = Pending | Processing | Completed | Failed | Dead

record job =
  job_id :: string
  command :: string
  state :: job_state
  attempts :: int
  max_retries :: int
  created_at :: timestamp
  updated_at :: timestamp
  next_run_at :: timestamp
  last_error :: "string option"
  priority :: int
  worker_id :: "string option"

text \<open>The jobs table: its rows in table order. \<open>id\<close> is the primary key.\<close>

type_synonym store = "job list"

datatype error = Exit int | AttributeError | OverflowError | ZeroDivisionError | ValueError

section \<open>Store operations (storage.py)\<close>

text \<open>\<open>UPDATE jobs SET ... WHERE ...\<close>: every row the condition selects is rewritten.\<close>

definition update_rows :: "(job \<Rightarrow> bool) \<Rightarrow> (job \<Rightarrow> job) \<Rightarrow> store \<Rightarrow> store" where
  "update_rows cond f s = map (\<lambda>r. if cond r then f r else r) s"

text \<open>
  \<open>upsert_job\<close>: \<open>INSERT ... ON CONFLICT(id) DO UPDATE SET\<close> with the column list of the
  source, which names every column but \<open>id\<close> and \<open>created_at\<close>.
\<close>

definition upsert_job :: "job \<Rightarrow> store \<Rightarrow> store" where
  "upsert_job j s =
     (if job_id j \<in> set (map job_id s)
      then update_rows (\<lambda>r. job_id r = job_id j)
             (\<lambda>r. r\<lparr>command := command j, state := state j, attempts := attempts j,
                     max_retries := max_retries j, updated_at := updated_at j,
                     next_run_at := next_run_at j, last_error := last_error j,
                     priority := priority j, worker_id := worker_id j\<rparr>) s
      else s @ [j])"

definition get_job :: "string \<Rightarrow> store \<Rightarrow> job option" where
  "get_job i s = find (\<lambda>r. job_id r = i) s"

definition recover_processing :: "timestamp \<Rightarrow> store \<Rightarrow> store" where
  "recover_processing now s =
     update_rows (\<lambda>r. state r = Processing)
       (\<lambda>r. r\<lparr>state := Failed, next_run_at := now, worker_id := None, updated_at := now\<rparr>) s"

text \<open>
  The selection of \<open>fetch_and_lock_next_job\<close>: the \<open>WHERE\<close> clause is \<open>ready\<close>, the strict
  part of the \<open>ORDER BY\<close> key is \<open>precedes\<close>, and \<open>LIMIT 1\<close> takes a row that no other
  selected row precedes. SQL leaves the choice among rows with equal keys open; the model
  takes the earliest such row of the table.
\<close>

definition ready :: "timestamp \<Rightarrow> job \<Rightarrow> bool" where
  "ready now r \<longleftrightarrow> (state r = Pending \<or> state r = Failed) \<and> next_run_at r \<le> now"

definition precedes :: "job \<Rightarrow> job \<Rightarrow> bool" where
  "precedes a b \<longleftrightarrow>
     priority a > priority b \<or>
     (priority a = priority b \<and>
       (next_run_at a < next_run_at b \<or>
        (next_run_at a = next_run_at b \<and> created_at a < created_at b)))"

fun first_row :: "job list \<Rightarrow> job option" where
  "first_row [] = None"
| "first_row (r # rs) =
     (case first_row rs of
        None \<Rightarrow> Some r
      | Some b \<Rightarrow> if precedes b r then Some b else Some r)"

definition select_next :: "timestamp \<Rightarrow> store \<Rightarrow> job option" where
  "select_next now s = first_row (filter (ready now) s)"

definition fetch_and_lock_next_job :: "string \<Rightarrow> timestamp \<Rightarrow> store \<Rightarrow> job option \<times> store" where
  "fetch_and_lock_next_job wid now s =
     (case select_next now s of
        None \<Rightarrow> (None, s)
      | Some row \<Rightarrow>
          (let s' = update_rows (\<lambda>r. job_id r = job_id row)
                      (\<lambda>r. r\<lparr>state := Processing, worker_id := Some wid, updated_at := now\<rparr>) s
           in (get_job (job_id row) s', s')))"

definition mark_completed :: "string \<Rightarrow> timestamp \<Rightarrow> store \<Rightarrow> store" where
  "mark_completed i now s =
     update_rows (\<lambda>r. job_id r = i)
       (\<lambda>r. r\<lparr>state := Completed, updated_at := now, worker_id := None\<rparr>) s"

text \<open>
  \<open>mark_failed_or_dead\<close>: \<open>next_run_at\<close> is an \<open>Optional[datetime]\<close>; the branch that writes
  \<open>failed\<close> calls \<open>next_run_at.isoformat()\<close>, which raises on \<open>None\<close> before any row is
  written.
\<close>

definition mark_failed_or_dead ::
  "string \<Rightarrow> int \<Rightarrow> int \<Rightarrow> string \<Rightarrow> timestamp option \<Rightarrow> timestamp \<Rightarrow> store \<Rightarrow> error + store" where
  "mark_failed_or_dead i att maxr lerr nra now s =
     (if att \<ge> maxr
      then Inr (update_rows (\<lambda>r. job_id r = i)
                  (\<lambda>r. r\<lparr>state := Dead, attempts := att, last_error := Some lerr,
                          updated_at := now, worker_id := None\<rparr>) s)
      else (case nra of
              None \<Rightarrow> Inl AttributeError
            | Some t \<Rightarrow>
                Inr (update_rows (\<lambda>r. job_id r = i)
                       (\<lambda>r. r\<lparr>state := Failed, attempts := att, last_error := Some lerr,
                               next_run_at := t, updated_at := now, worker_id := None\<rparr>) s)))"

section \<open>Admin operations (cli.py)\<close>

text \<open>
  \<open>enqueue\<close>: \<open>maxr\<close> is the \<open>--max-retries\<close> option and \<open>cfg_max_retries\<close> the value of
  \<open>int(config_get("max_retries", "3"))\<close>, read only when the option is absent.
\<close>

definition enqueue ::
  "string \<Rightarrow> string \<Rightarrow> int option \<Rightarrow> int \<Rightarrow> int \<Rightarrow> timestamp \<Rightarrow> store \<Rightarrow> store" where
  "enqueue i cmd maxr cfg_max_retries prio now s =
     upsert_job \<lparr>job_id = i, command = cmd, state = Pending, attempts = 0,
                 max_retries = (case maxr of Some m \<Rightarrow> m | None \<Rightarrow> cfg_max_retries),
                 created_at = now, updated_at = now, next_run_at = now,
                 last_error = None, priority = prio, worker_id = None\<rparr> s"

text \<open>\<open>dlq_retry\<close>: the result is the exit (\<open>typer.Exit(1)\<close>) or unit, with the store it leaves.\<close>

definition dlq_retry :: "string \<Rightarrow> timestamp \<Rightarrow> store \<Rightarrow> (error + unit) \<times> store" where
  "dlq_retry i now s =
     (case get_job i s of
        None \<Rightarrow> (Inl (Exit 1), s)
      | Some row \<Rightarrow>
          if state row \<noteq> Dead then (Inl (Exit 1), s)
          else (Inr (),
                upsert_job (row\<lparr>state := Pending, attempts := 0, last_error := None,
                                next_run_at := now, updated_at := now, worker_id := None\<rparr>) s))"

section \<open>Backoff policy (worker.py)\<close>

text \<open>
  Python floats are modelled by the reals they denote: rounding is left out, and a result
  beyond the largest finite double raises \<open>OverflowError\<close> as \<open>float ** int\<close> does.
  \<open>0.0\<close> to a negative power raises \<open>ZeroDivisionError\<close>. Infinities and NaN are outside
  the model.
\<close>

definition dbl_max :: real where
  "dbl_max = (2 ^ 53 - 1) * 2 ^ 971"

definition float_pow :: "real \<Rightarrow> int \<Rightarrow> error + real" where
  "float_pow b n =
     (if b = 0 \<and> n < 0 then Inl ZeroDivisionError
      else (let r = (if 0 \<le> n then b ^ nat n else 1 / b ^ nat (- n))
            in if \<bar>r\<bar> > dbl_max then Inl OverflowError else Inr r))"

text \<open>
  The argument \<open>base\<close> of \<open>backoff_delay\<close> as \<open>float(base)\<close> sees it: a value it converts
  to a float, or a value on which it raises.
\<close>

datatype base_arg = Castable real | Uncastable

text \<open>
  \<open>backoff_delay\<close>: \<open>float(base) ** int(attempts)\<close>; on any exception of that expression,
  \<open>2.0 ** int(attempts)\<close>, whose own exception is not caught.
\<close>

definition backoff_delay :: "base_arg \<Rightarrow> int \<Rightarrow> error + real" where
  "backoff_delay base att =
     (case (case base of Uncastable \<Rightarrow> Inl ValueError | Castable b \<Rightarrow> float_pow b att) of
        Inr d \<Rightarrow> Inr d
      | Inl e \<Rightarrow> float_pow 2 att)"

section \<open>Worker loop (worker.py)\<close>

text \<open>
  \<open>timedelta(seconds=x)\<close> raises \<open>OverflowError\<close> beyond 999999999 days, and adding it to a
  datetime raises \<open>OverflowError\<close> outside the years 1 to 9999.
\<close>

definition timedelta :: "real \<Rightarrow> error + real" where
  "timedelta secs =
     (if - 86399999913600 \<le> secs \<and> secs < 86400000000000 then Inr secs
      else Inl OverflowError)"

definition datetime_add :: "timestamp \<Rightarrow> real \<Rightarrow> error + timestamp" where
  "datetime_add t d = (if 0 \<le> t + d \<and> t + d < 315537897600 then Inr (t + d) else Inl OverflowError)"

text \<open>
  The computation of the retry time in \<open>worker_loop\<close>: \<open>cfg_base\<close> is what
  \<open>float(config_get("backoff_base", "2"))\<close> yields, \<open>None\<close> when \<open>float\<close> raises
  \<open>ValueError\<close>; \<open>att\<close> is the incremented attempt count.
\<close>

definition next_run :: "real option \<Rightarrow> int \<Rightarrow> timestamp \<Rightarrow> error + timestamp" where
  "next_run cfg_base att now =
     (case cfg_base of
        None \<Rightarrow> Inl ValueError
      | Some base \<Rightarrow>
          (case backoff_delay (Castable base) att of
             Inl e \<Rightarrow> Inl e
           | Inr delay_sec \<Rightarrow>
               (case timedelta delay_sec of
                  Inl e \<Rightarrow> Inl e
                | Inr d \<Rightarrow> datetime_add now d)))"

text \<open>
  What \<open>worker_loop\<close> does with a claimed job once \<open>run_command\<close> has returned
  \<open>(rc, err)\<close>: \<open>now_run\<close> is the clock read for the retry time, \<open>now_mark\<close> the clock
  read inside \<open>mark_completed\<close> or \<open>mark_failed_or_dead\<close>.
\<close>

definition finalize ::
  "job \<Rightarrow> int \<Rightarrow> string \<Rightarrow> real option \<Rightarrow> timestamp \<Rightarrow> timestamp \<Rightarrow> store \<Rightarrow> error + store" where
  "finalize j rc err cfg_base now_run now_mark s =
     (if rc = 0 then Inr (mark_completed (job_id j) now_mark s)
      else (case next_run cfg_base (attempts j + 1) now_run of
              Inl e \<Rightarrow> Inl e
            | Inr nr \<Rightarrow>
                mark_failed_or_dead (job_id j) (attempts j + 1) (max_retries j)
                  (take 512 err) (Some nr) now_mark s))"













section \<open>Several workers on one store\<close>

text \<open>
  Workers are processes that share the store; every store operation is one transaction, so
  a run of the system is a sequence of whole operations. \<open>held\<close> lists, for each worker
  that has claimed a job and not yet finalized it, the row its claim returned.
\<close>

record engine =
  jobs :: store
  held :: "(string \<times> job) list"

datatype event =
    Enqueue string string "int option" int int timestamp
  | WorkerStart string timestamp
  | Claim string timestamp
  | Finish string int string "real option" timestamp timestamp
  | DlqRetry string timestamp

definition engine0 :: engine where
  "engine0 = \<lparr>jobs = [], held = []\<rparr>"

text \<open>
  \<open>WorkerStart\<close> is the entry of \<open>worker_loop\<close> (\<open>recover_processing\<close>), \<open>Claim\<close> its
  call of \<open>fetch_and_lock_next_job\<close>, \<open>Finish\<close> the return of \<open>run_command\<close> with what
  follows it; an exception there ends the worker and leaves the row as it is.
\<close>

fun engine_step :: "event \<Rightarrow> engine \<Rightarrow> engine" where
  "engine_step (Enqueue i cmd maxr cfg prio now) e = e\<lparr>jobs := enqueue i cmd maxr cfg prio now (jobs e)\<rparr>"
| "engine_step (WorkerStart w now) e = e\<lparr>jobs := recover_processing now (jobs e)\<rparr>"
| "engine_step (Claim w now) e =
     (case map_of (held e) w of
        Some j \<Rightarrow> e
      | None \<Rightarrow>
          (case fetch_and_lock_next_job w now (jobs e) of
             (None, s') \<Rightarrow> e\<lparr>jobs := s'\<rparr>
           | (Some j, s') \<Rightarrow> e\<lparr>jobs := s', held := (w, j) # held e\<rparr>))"
| "engine_step (Finish w rc err cfg_base now_run now_mark) e =
     (case map_of (held e) w of
        None \<Rightarrow> e
      | Some j \<Rightarrow>
          (case finalize j rc err cfg_base now_run now_mark (jobs e) of
             Inl x \<Rightarrow> e\<lparr>held := filter (\<lambda>p. fst p \<noteq> w) (held e)\<rparr>
           | Inr s' \<Rightarrow> e\<lparr>jobs := s', held := filter (\<lambda>p. fst p \<noteq> w) (held e)\<rparr>))"
| "engine_step (DlqRetry i now) e = e\<lparr>jobs := snd (dlq_retry i now (jobs e))\<rparr>"

fun run :: "event list \<Rightarrow> engine \<Rightarrow> engine" where
  "run [] e = e"
| "run (ev # evs) e = run evs (engine_step ev e)"

text \<open>
  The id an event writes to by id, if any: claims and recovery select rows by state.
\<close>

fun target :: "event \<Rightarrow> engine \<Rightarrow> string option" where
  "target (Enqueue i cmd maxr cfg prio now) e = Some i"
| "target (DlqRetry i now) e = Some i"
| "target (Finish w rc err cfg_base now_run now_mark) e = map_option job_id (map_of (held e) w)"
| "target (WorkerStart w now) e = None"
| "target (Claim w now) e = None"

text \<open>
  Runs in which every job is enqueued with \<open>max_retries \<ge> 1\<close> and no id is re-enqueued
  while a worker holds a job of that id.
\<close>

fun admissible :: "event \<Rightarrow> engine \<Rightarrow> bool" where
  "admissible (Enqueue i cmd maxr cfg prio now) e =
     (1 \<le> (case maxr of Some m \<Rightarrow> m | None \<Rightarrow> cfg) \<and> i \<notin> set (map (\<lambda>p. job_id (snd p)) (held e)))"
| "admissible ev e = True"

fun admissible_run :: "event list \<Rightarrow> engine \<Rightarrow> bool" where
  "admissible_run [] e = True"
| "admissible_run (ev # evs) e = (admissible ev e \<and> admissible_run evs (engine_step ev e))"

text \<open>
  The counting invariant of a run: ids are unique; every row has \<open>max_retries \<ge> 1\<close> and
  \<open>0 \<le> attempts \<le> max_retries\<close>, strictly below while the job can still be run; every
  held job has \<open>attempts < max_retries\<close> and the \<open>max_retries\<close> of its row.
\<close>

definition row_ok :: "job \<Rightarrow> bool" where
  "row_ok r \<longleftrightarrow>
     1 \<le> max_retries r \<and> 0 \<le> attempts r \<and> attempts r \<le> max_retries r \<and>
     (state r = Pending \<or> state r = Failed \<or> state r = Processing \<longrightarrow> attempts r < max_retries r)"

definition held_ok :: "store \<Rightarrow> job \<Rightarrow> bool" where
  "held_ok s h \<longleftrightarrow>
     0 \<le> attempts h \<and> attempts h < max_retries h \<and>
     (\<forall>r\<in>set s. job_id r = job_id h \<longrightarrow> max_retries r = max_retries h)"

definition counted :: "engine \<Rightarrow> bool" where
  "counted e \<longleftrightarrow>
     distinct (map job_id (jobs e)) \<and> (\<forall>r\<in>set (jobs e). row_ok r) \<and>
     (\<forall>p\<in>set (held e). held_ok (jobs e) (snd p))"

text \<open>
  Ids are unique, and only a processing row carries a worker id.
\<close>

definition tidy :: "engine \<Rightarrow> bool" where
  "tidy e \<longleftrightarrow> distinct (map job_id (jobs e)) \<and>
              (\<forall>r\<in>set (jobs e). state r \<noteq> Processing \<longrightarrow> worker_id r = None)"

section \<open>Example rows\<close>

definition job_a :: job where
  "job_a = \<lparr>job_id = ''a'', command = ''true'', state = Pending, attempts = 0,
             max_retries = 3, created_at = 1, updated_at = 1, next_run_at = 1,
             last_error = None, priority = 0, worker_id = None\<rparr>"

definition job_b :: job where
  "job_b = \<lparr>job_id = ''b'', command = ''false'', state = Failed, attempts = 1,
             max_retries = 3, created_at = 2, updated_at = 4, next_run_at = 4,
             last_error = Some ''boom'', priority = 5, worker_id = None\<rparr>"

definition job_d :: job where
  "job_d = \<lparr>job_id = ''d'', command = ''false'', state = Dead, attempts = 2,
             max_retries = 2, created_at = 3, updated_at = 9, next_run_at = 8,
             last_error = Some ''boom'', priority = 0, worker_id = None\<rparr>"




text \<open>A run that takes job \<open>j\<close>, enqueued with \<open>max_retries = 1\<close>, to the dead letter queue.\<close>

definition run_to_dead :: "event list" where
  "run_to_dead = [Enqueue ''j'' ''false'' (Some 1) 3 0 1, WorkerStart ''w1'' 2, Claim ''w1'' 3,
                  Finish ''w1'' 1 ''boom'' (Some 2) 4 5]"

definition job_j_dead :: job where
  "job_j_dead = \<lparr>job_id = ''j'', command = ''false'', state = Dead, attempts = 1,
                  max_retries = 1, created_at = 1, updated_at = 5, next_run_at = 1,
                  last_error = Some ''boom'', priority = 0, worker_id = None\<rparr>"

section \<open>Rows and updates\<close>

lemma update_rows_length: "length (update_rows c f s) = length s"
  by (simp add: update_rows_def)

lemma update_rows_nth:
  "n < length s \<Longrightarrow> update_rows c f s ! n = (if c (s ! n) then f (s ! n) else s ! n)"
  by (simp add: update_rows_def)

lemma update_rows_ids:
  "(\<And>r. job_id (f r) = job_id r) \<Longrightarrow> map job_id (update_rows c f s) = map job_id s"
  by (induction s) (simp_all add: update_rows_def)

lemma get_job_update_same:
  "(\<And>r. job_id (f r) = job_id r) \<Longrightarrow>
   get_job i (update_rows (\<lambda>r. job_id r = i) f s) = map_option f (get_job i s)"
  by (induction s) (simp_all add: update_rows_def get_job_def)

lemma get_job_update_other:
  "(\<And>r. job_id (f r) = job_id r) \<Longrightarrow> i' \<noteq> i \<Longrightarrow>
   get_job i' (update_rows (\<lambda>r. job_id r = i) f s) = get_job i' s"
  by (induction s) (simp_all add: update_rows_def get_job_def)

lemma get_job_Some: "get_job i s = Some r \<Longrightarrow> r \<in> set s \<and> job_id r = i"
  by (induction s) (auto simp: get_job_def split: if_splits)

lemma get_job_None: "get_job i s = None \<longleftrightarrow> i \<notin> set (map job_id s)"
  by (induction s) (auto simp: get_job_def)

lemma get_job_distinct:
  "distinct (map job_id s) \<Longrightarrow> r \<in> set s \<Longrightarrow> get_job (job_id r) s = Some r"
  by (induction s) (auto simp: get_job_def)

lemma update_rows_distinct_id:
  assumes "distinct (map job_id s)" and "n < length s" and "job_id (s ! n) = i"
  shows "update_rows (\<lambda>r. job_id r = i) f s = s[n := f (s ! n)]"
proof (rule nth_equalityI)
  show "length (update_rows (\<lambda>r. job_id r = i) f s) = length (s[n := f (s ! n)])"
    by (simp add: update_rows_length)
next
  fix m assume "m < length (update_rows (\<lambda>r. job_id r = i) f s)"
  then have m: "m < length s" by (simp add: update_rows_length)
  have "job_id (s ! m) = i \<longleftrightarrow> m = n"
  proof
    assume "job_id (s ! m) = i"
    then have "map job_id s ! m = map job_id s ! n" using assms m by simp
    moreover have "m < length (map job_id s)" "n < length (map job_id s)"
      using assms m by simp_all
    ultimately show "m = n"
      using assms(1) nth_eq_iff_index_eq [of "map job_id s" m n] by blast
  qed (use assms in simp)
  then show "update_rows (\<lambda>r. job_id r = i) f s ! m = s[n := f (s ! n)] ! m"
    using m assms by (auto simp: update_rows_nth)
qed

lemma get_job_nth:
  "distinct (map job_id s) \<Longrightarrow> get_job i s = Some r \<Longrightarrow> \<exists>n<length s. s ! n = r"
  by (metis get_job_Some in_set_conv_nth)

lemma first_row_None: "first_row xs = None \<longleftrightarrow> xs = []"
  by (induction xs) (auto split: option.splits)

lemma precedes_irrefl: "\<not> precedes a a"
  by (simp add: precedes_def)

lemma precedes_neg_trans: "precedes x r \<Longrightarrow> \<not> precedes b r \<Longrightarrow> precedes x b"
  unfolding precedes_def by (smt (verit, best))

lemma first_row_Some:
  "first_row xs = Some r \<Longrightarrow> r \<in> set xs \<and> (\<forall>x\<in>set xs. \<not> precedes x r)"
proof (induction xs arbitrary: r)
  case Nil
  then show ?case by simp
next
  case (Cons a xs)
  show ?case
  proof (cases "first_row xs")
    case None
    then have "xs = []" by (simp add: first_row_None)
    with Cons.prems None show ?thesis by (simp add: precedes_irrefl)
  next
    case (Some b)
    then have b: "b \<in> set xs" "\<forall>x\<in>set xs. \<not> precedes x b" using Cons.IH by auto
    show ?thesis
    proof (cases "precedes b a")
      case True
      then have "r = b" using Cons.prems Some by simp
      moreover have "\<not> precedes a b"
        using True unfolding precedes_def by (smt (verit, best))
      ultimately show ?thesis using b by simp
    next
      case False
      then have "r = a" using Cons.prems Some by simp
      moreover have "\<forall>x\<in>set xs. \<not> precedes x a"
        using False b(2) precedes_neg_trans by blast
      ultimately show ?thesis by (simp add: precedes_irrefl)
    qed
  qed
qed

lemma select_next_None: "select_next now s = None \<longleftrightarrow> (\<forall>r\<in>set s. \<not> ready now r)"
  by (simp add: select_next_def first_row_None filter_empty_conv)

lemma select_next_Some:
  "select_next now s = Some r \<Longrightarrow>
   r \<in> set s \<and> ready now r \<and> (\<forall>x\<in>set s. ready now x \<longrightarrow> \<not> precedes x r)"
  using first_row_Some [of "filter (ready now) s" r] by (auto simp: select_next_def)

lemma get_job_append:
  "get_job i (s @ [j]) =
     (case get_job i s of Some r \<Rightarrow> Some r | None \<Rightarrow> if job_id j = i then Some j else None)"
  by (induction s) (simp_all add: get_job_def)

lemma upsert_job_existing:
  assumes "get_job (job_id j) s = Some old"
  shows "get_job (job_id j) (upsert_job j s) = Some (j\<lparr>created_at := created_at old\<rparr>)"
proof -
  let ?f = "\<lambda>r::job. r\<lparr>command := command j, state := state j, attempts := attempts j,
                     max_retries := max_retries j, updated_at := updated_at j,
                     next_run_at := next_run_at j, last_error := last_error j,
                     priority := priority j, worker_id := worker_id j\<rparr>"
  have mem: "job_id j \<in> set (map job_id s)"
    using assms get_job_None [of "job_id j" s] by simp
  have "job_id old = job_id j" using assms get_job_Some by blast
  then have "?f old = j\<lparr>created_at := created_at old\<rparr>" by simp
  moreover have "get_job (job_id j) (update_rows (\<lambda>r. job_id r = job_id j) ?f s)
                   = map_option ?f (get_job (job_id j) s)"
    by (rule get_job_update_same) simp
  ultimately show ?thesis using mem assms by (simp add: upsert_job_def)
qed

lemma upsert_job_other:
  assumes "i \<noteq> job_id j"
  shows "get_job i (upsert_job j s) = get_job i s"
proof (cases "job_id j \<in> set (map job_id s)")
  case True
  then show ?thesis
    using assms by (simp add: upsert_job_def get_job_update_other)
next
  case False
  then show ?thesis
    using assms by (simp add: upsert_job_def get_job_append split: option.splits)
qed

lemma upsert_job_existing_rows:
  assumes "job_id j \<in> set (map job_id s)"
  shows "length (upsert_job j s) = length s"
    and "map job_id (upsert_job j s) = map job_id s"
    and "n < length s \<Longrightarrow> job_id (s ! n) \<noteq> job_id j \<Longrightarrow> upsert_job j s ! n = s ! n"
  using assms by (simp_all add: upsert_job_def update_rows_length update_rows_nth update_rows_ids)

lemma dlq_retry_dead:
  assumes "get_job i s = Some row" and "state row = Dead"
  shows "dlq_retry i now s =
           (Inr (), upsert_job (row\<lparr>state := Pending, attempts := 0, last_error := None,
                                    next_run_at := now, updated_at := now, worker_id := None\<rparr>) s)"
    and "get_job i (snd (dlq_retry i now s)) =
           Some (row\<lparr>state := Pending, attempts := 0, last_error := None,
                      next_run_at := now, updated_at := now, worker_id := None\<rparr>)"
proof -
  let ?p = "row\<lparr>state := Pending, attempts := 0, last_error := None,
                 next_run_at := now, updated_at := now, worker_id := None\<rparr>"
  show eq: "dlq_retry i now s = (Inr (), upsert_job ?p s)"
    using assms by (simp add: dlq_retry_def)
  have id: "job_id ?p = i" using assms(1) get_job_Some by fastforce
  then have "get_job (job_id ?p) s = Some row" using assms(1) by simp
  then have "get_job (job_id ?p) (upsert_job ?p s) = Some (?p\<lparr>created_at := created_at row\<rparr>)"
    by (rule upsert_job_existing)
  then show "get_job i (snd (dlq_retry i now s)) = Some ?p"
    using eq id by simp
qed

section \<open>The claim protocol\<close>

text \<open>
  C1. \<open>fetch_and_lock_next_job\<close> looks at the rows in state pending or failed whose
  \<open>next_run_at\<close> is not after \<open>now\<close>. When there is none it returns nothing and the table
  is as before. Otherwise it takes a row first in the order (priority descending,
  \<open>next_run_at\<close> ascending, \<open>created_at\<close> ascending), that is a ready row that no ready row
  precedes, rewrites exactly that row to state processing, worker id \<open>W\<close> and
  \<open>updated_at = now\<close>, and returns the rewritten row. Ids are unique, as the primary key
  makes them.
\<close>

theorem fetch_and_lock_next_job_first:
  assumes "distinct (map job_id s)"
  shows "((\<forall>r\<in>set s. \<not> ready now r) \<longrightarrow> fetch_and_lock_next_job W now s = (None, s)) \<and>
         ((\<exists>r\<in>set s. ready now r) \<longrightarrow>
            (\<exists>n<length s. ready now (s ! n) \<and>
               (\<forall>x\<in>set s. ready now x \<longrightarrow> \<not> precedes x (s ! n)) \<and>
               fetch_and_lock_next_job W now s =
                 (Some ((s ! n)\<lparr>state := Processing, worker_id := Some W, updated_at := now\<rparr>),
                  s[n := (s ! n)\<lparr>state := Processing, worker_id := Some W, updated_at := now\<rparr>])))"
proof (intro conjI impI)
  assume "\<forall>r\<in>set s. \<not> ready now r"
  then have "select_next now s = None" by (simp add: select_next_None)
  then show "fetch_and_lock_next_job W now s = (None, s)"
    by (simp add: fetch_and_lock_next_job_def)
next
  let ?f = "\<lambda>r::job. r\<lparr>state := Processing, worker_id := Some W, updated_at := now\<rparr>"
  assume "\<exists>r\<in>set s. ready now r"
  then have "select_next now s \<noteq> None" by (simp add: select_next_None)
  then obtain row where row: "select_next now s = Some row" by auto
  then have props: "row \<in> set s" "ready now row"
    "\<forall>x\<in>set s. ready now x \<longrightarrow> \<not> precedes x row"
    using select_next_Some by blast+
  then obtain n where n: "n < length s" "s ! n = row" by (auto simp: in_set_conv_nth)
  have upd: "update_rows (\<lambda>r. job_id r = job_id row) ?f s = s[n := ?f (s ! n)]"
    using assms n by (intro update_rows_distinct_id) simp_all
  have "get_job (job_id row) (update_rows (\<lambda>r. job_id r = job_id row) ?f s)
          = map_option ?f (get_job (job_id row) s)"
    by (rule get_job_update_same) simp
  also have "\<dots> = Some (?f row)"
    using assms props(1) by (simp add: get_job_distinct)
  finally have "fetch_and_lock_next_job W now s = (Some (?f (s ! n)), s[n := ?f (s ! n)])"
    using row upd n by (simp add: fetch_and_lock_next_job_def Let_def)
  with n props show "\<exists>n<length s. ready now (s ! n) \<and>
               (\<forall>x\<in>set s. ready now x \<longrightarrow> \<not> precedes x (s ! n)) \<and>
               fetch_and_lock_next_job W now s = (Some (?f (s ! n)), s[n := ?f (s ! n)])"
    by blast
qed

section \<open>Finalization\<close>

text \<open>
  C3. \<open>mark_failed_or_dead(id, attempts, max_retries, last_error, next_run_at)\<close>: when
  \<open>attempts \<ge> max_retries\<close>, equality included, every row with that id gets state dead, the
  supplied attempts and last error and no worker id; otherwise, with a supplied
  \<open>next_run_at\<close>, it gets state failed, the supplied attempts, last error and \<open>next_run_at\<close>
  and no worker id. No other row and no other column of the row changes.
\<close>

theorem mark_failed_or_dead_written:
  "(att \<ge> maxr \<longrightarrow>
      (\<exists>s'. mark_failed_or_dead i att maxr lerr nra now s = Inr s' \<and> length s' = length s \<and>
         (\<forall>n<length s. s' ! n =
            (if job_id (s ! n) = i
             then (s ! n)\<lparr>state := Dead, attempts := att, last_error := Some lerr,
                           updated_at := now, worker_id := None\<rparr>
             else s ! n)))) \<and>
   (att < maxr \<longrightarrow>
      (\<exists>s'. mark_failed_or_dead i att maxr lerr (Some t) now s = Inr s' \<and> length s' = length s \<and>
         (\<forall>n<length s. s' ! n =
            (if job_id (s ! n) = i
             then (s ! n)\<lparr>state := Failed, attempts := att, last_error := Some lerr,
                           next_run_at := t, updated_at := now, worker_id := None\<rparr>
             else s ! n))))"
  by (simp add: mark_failed_or_dead_def update_rows_length update_rows_nth)

theorem mark_failed_or_dead_written_witness:
  "(3::int) \<ge> 3 \<and> (1::int) < 3 \<and>
   (\<exists>s'. mark_failed_or_dead ''b'' 3 3 ''err'' None 7 [job_a, job_b] = Inr s' \<and>
      s' ! 0 = job_a \<and> state (s' ! 1) = Dead \<and> attempts (s' ! 1) = 3 \<and>
      last_error (s' ! 1) = Some ''err'' \<and> worker_id (s' ! 1) = None) \<and>
   (\<exists>s'. mark_failed_or_dead ''b'' 1 3 ''err'' (Some 9) 7 [job_a, job_b] = Inr s' \<and>
      s' ! 0 = job_a \<and> state (s' ! 1) = Failed \<and> attempts (s' ! 1) = 1 \<and>
      last_error (s' ! 1) = Some ''err'' \<and> next_run_at (s' ! 1) = 9 \<and>
      worker_id (s' ! 1) = None)"
proof -
  have h1: "(3::int) \<ge> 3" and h2: "(1::int) < 3" by simp_all
  have ids: "job_id ([job_a, job_b] ! 0) \<noteq> ''b''" "job_id ([job_a, job_b] ! 1) = ''b''"
    by (simp_all add: job_a_def job_b_def)
  have len: "0 < length [job_a, job_b]" "1 < length [job_a, job_b]" by simp_all
  from mark_failed_or_dead_written [of 3 3 "''b''" "''err''" None 7 "[job_a, job_b]" 9] h1
  obtain s1 where s1: "mark_failed_or_dead ''b'' 3 3 ''err'' None 7 [job_a, job_b] = Inr s1"
    and r1: "\<forall>n<length [job_a, job_b]. s1 ! n =
            (if job_id ([job_a, job_b] ! n) = ''b''
             then ([job_a, job_b] ! n)\<lparr>state := Dead, attempts := 3, last_error := Some ''err'',
                           updated_at := 7, worker_id := None\<rparr>
             else [job_a, job_b] ! n)"
    by blast
  from mark_failed_or_dead_written [of 3 1 "''b''" "''err''" None 7 "[job_a, job_b]" 9] h2
  obtain s2 where s2: "mark_failed_or_dead ''b'' 1 3 ''err'' (Some 9) 7 [job_a, job_b] = Inr s2"
    and r2: "\<forall>n<length [job_a, job_b]. s2 ! n =
            (if job_id ([job_a, job_b] ! n) = ''b''
             then ([job_a, job_b] ! n)\<lparr>state := Failed, attempts := 1, last_error := Some ''err'',
                           next_run_at := 9, updated_at := 7, worker_id := None\<rparr>
             else [job_a, job_b] ! n)"
    by blast
  have "s1 ! 0 = job_a" "s2 ! 0 = job_a"
    using r1 [rule_format, OF len(1)] r2 [rule_format, OF len(1)] ids(1) by simp_all
  moreover have "s1 ! 1 = job_b\<lparr>state := Dead, attempts := 3, last_error := Some ''err'',
                           updated_at := 7, worker_id := None\<rparr>"
    using r1 [rule_format, OF len(2)] ids(2) by simp
  moreover have "s2 ! 1 = job_b\<lparr>state := Failed, attempts := 1, last_error := Some ''err'',
                           next_run_at := 9, updated_at := 7, worker_id := None\<rparr>"
    using r2 [rule_format, OF len(2)] ids(2) by simp
  ultimately show ?thesis using s1 s2 by simp
qed

theorem fetch_and_lock_next_job_first_witness:
  "distinct (map job_id [job_a, job_b]) \<and> (\<exists>r\<in>set [job_a, job_b]. ready 5 r) \<and>
   (\<exists>n<length [job_a, job_b]. ready 5 ([job_a, job_b] ! n) \<and>
      (\<forall>x\<in>set [job_a, job_b]. ready 5 x \<longrightarrow> \<not> precedes x ([job_a, job_b] ! n)) \<and>
      fetch_and_lock_next_job ''w1'' 5 [job_a, job_b] =
        (Some (([job_a, job_b] ! n)\<lparr>state := Processing, worker_id := Some ''w1'', updated_at := 5\<rparr>),
         [job_a, job_b][n := ([job_a, job_b] ! n)\<lparr>state := Processing, worker_id := Some ''w1'',
                                                 updated_at := 5\<rparr>])) \<and>
   distinct (map job_id [job_d]) \<and> \<not> ready 5 job_d \<and>
   fetch_and_lock_next_job ''w1'' 5 [job_d] = (None, [job_d])"
proof -
  have d: "distinct (map job_id [job_a, job_b])" by (simp add: job_a_def job_b_def)
  have e: "\<exists>r\<in>set [job_a, job_b]. ready 5 r" by (simp add: ready_def job_a_def)
  have d2: "distinct (map job_id [job_d])" by simp
  have n2: "\<forall>r\<in>set [job_d]. \<not> ready 5 r" by (simp add: ready_def job_d_def)
  have n3: "\<not> ready 5 job_d" using n2 by simp
  show ?thesis
    using d e d2 n2 n3 fetch_and_lock_next_job_first [OF d, of 5 "''w1''"]
      fetch_and_lock_next_job_first [OF d2, of 5 "''w1''"]
    by blast
qed

section \<open>Dead-letter retry and re-enqueue\<close>

text \<open>
  C7. \<open>dlq_retry(id)\<close> succeeds exactly when the job exists and is in state dead; the row
  then reads state pending, attempts 0, no last error, \<open>next_run_at = now\<close> (and
  \<open>updated_at = now\<close>, no worker id). When the job does not exist or is in another state,
  \<open>dlq_retry\<close> exits with code 1 and the table is as before.
\<close>

theorem dlq_retry_requires_dead:
  "(\<forall>row. get_job i s = Some row \<and> state row = Dead \<longrightarrow>
      fst (dlq_retry i now s) = Inr () \<and>
      get_job i (snd (dlq_retry i now s)) =
        Some (row\<lparr>state := Pending, attempts := 0, last_error := None,
                   next_run_at := now, updated_at := now, worker_id := None\<rparr>)) \<and>
   ((get_job i s = None \<or> (\<exists>row. get_job i s = Some row \<and> state row \<noteq> Dead)) \<longrightarrow>
      dlq_retry i now s = (Inl (Exit 1), s)) \<and>
   (fst (dlq_retry i now s) = Inr () \<longleftrightarrow> (\<exists>row. get_job i s = Some row \<and> state row = Dead))"
proof (intro conjI allI impI)
  fix row assume "get_job i s = Some row \<and> state row = Dead"
  then show "fst (dlq_retry i now s) = Inr ()"
    and "get_job i (snd (dlq_retry i now s)) =
        Some (row\<lparr>state := Pending, attempts := 0, last_error := None,
                   next_run_at := now, updated_at := now, worker_id := None\<rparr>)"
    using dlq_retry_dead [of i s row now] by simp_all
next
  assume "get_job i s = None \<or> (\<exists>row. get_job i s = Some row \<and> state row \<noteq> Dead)"
  then show "dlq_retry i now s = (Inl (Exit 1), s)"
    by (auto simp: dlq_retry_def)
next
  show "fst (dlq_retry i now s) = Inr () \<longleftrightarrow> (\<exists>row. get_job i s = Some row \<and> state row = Dead)"
    by (auto simp: dlq_retry_def split: option.splits)
qed

theorem dlq_retry_requires_dead_witness:
  "get_job ''d'' [job_a, job_d] = Some job_d \<and> state job_d = Dead \<and>
   fst (dlq_retry ''d'' 12 [job_a, job_d]) = Inr () \<and>
   get_job ''d'' (snd (dlq_retry ''d'' 12 [job_a, job_d])) =
     Some (job_d\<lparr>state := Pending, attempts := 0, last_error := None,
                  next_run_at := 12, updated_at := 12, worker_id := None\<rparr>) \<and>
   get_job ''a'' [job_a, job_d] = Some job_a \<and> state job_a \<noteq> Dead \<and>
   dlq_retry ''a'' 12 [job_a, job_d] = (Inl (Exit 1), [job_a, job_d]) \<and>
   get_job ''z'' [job_a, job_d] = None \<and>
   dlq_retry ''z'' 12 [job_a, job_d] = (Inl (Exit 1), [job_a, job_d])"
proof -
  have g: "get_job ''d'' [job_a, job_d] = Some job_d" "state job_d = Dead"
    "get_job ''a'' [job_a, job_d] = Some job_a" "state job_a \<noteq> Dead"
    "get_job ''z'' [job_a, job_d] = None"
    by (simp_all add: get_job_def job_a_def job_d_def)
  show ?thesis
    using g dlq_retry_requires_dead [of "''d''" "[job_a, job_d]" 12]
      dlq_retry_requires_dead [of "''a''" "[job_a, job_d]" 12]
      dlq_retry_requires_dead [of "''z''" "[job_a, job_d]" 12]
    by blast
qed

text \<open>
  C10. A successful \<open>dlq_retry(id)\<close> of a dead job keeps the row's id, command, priority,
  \<open>max_retries\<close> and \<open>created_at\<close>: the new row is the old one with only state, attempts,
  last error, \<open>next_run_at\<close>, \<open>updated_at\<close> and worker id written. Rows with another id
  are as before.
\<close>

theorem dlq_retry_frame:
  assumes "get_job i s = Some row" and "state row = Dead"
  shows "\<exists>row'. get_job i (snd (dlq_retry i now s)) = Some row' \<and>
           job_id row' = job_id row \<and> command row' = command row \<and>
           priority row' = priority row \<and> max_retries row' = max_retries row \<and>
           created_at row' = created_at row \<and>
           (\<exists>st a le nr up w. row' = row\<lparr>state := st, attempts := a, last_error := le,
                                          next_run_at := nr, updated_at := up, worker_id := w\<rparr>) \<and>
           length (snd (dlq_retry i now s)) = length s \<and>
           (\<forall>n<length s. job_id (s ! n) \<noteq> i \<longrightarrow> snd (dlq_retry i now s) ! n = s ! n)"
proof -
  let ?p = "row\<lparr>state := Pending, attempts := 0, last_error := None,
                 next_run_at := now, updated_at := now, worker_id := None\<rparr>"
  have id: "job_id ?p = i" using assms(1) get_job_Some by fastforce
  have mem: "job_id ?p \<in> set (map job_id s)"
    using assms(1) get_job_None [of i s] id by simp
  have eq: "snd (dlq_retry i now s) = upsert_job ?p s"
    using dlq_retry_dead(1) [OF assms] by simp
  have "get_job i (snd (dlq_retry i now s)) = Some ?p"
    using dlq_retry_dead(2) [OF assms] .
  moreover have "length (snd (dlq_retry i now s)) = length s"
    using eq upsert_job_existing_rows(1) [OF mem] by simp
  moreover have "\<forall>n<length s. job_id (s ! n) \<noteq> i \<longrightarrow> snd (dlq_retry i now s) ! n = s ! n"
    using eq upsert_job_existing_rows(3) [OF mem] id by simp
  ultimately show ?thesis by force
qed

theorem dlq_retry_frame_witness:
  "get_job ''d'' [job_a, job_d] = Some job_d \<and> state job_d = Dead \<and>
   (\<exists>row'. get_job ''d'' (snd (dlq_retry ''d'' 12 [job_a, job_d])) = Some row' \<and>
      command row' = ''false'' \<and> priority row' = 0 \<and> max_retries row' = 2 \<and>
      created_at row' = 3) \<and>
   snd (dlq_retry ''d'' 12 [job_a, job_d]) ! 0 = job_a"
proof -
  have g: "get_job ''d'' [job_a, job_d] = Some job_d" "state job_d = Dead"
    by (simp_all add: get_job_def job_a_def job_d_def)
  have a: "0 < length [job_a, job_d]" "job_id ([job_a, job_d] ! 0) \<noteq> ''d''"
    "[job_a, job_d] ! 0 = job_a"
    by (simp_all add: job_a_def)
  have f: "command job_d = ''false''" "priority job_d = 0" "max_retries job_d = 2"
    "created_at job_d = 3"
    by (simp_all add: job_d_def)
  from dlq_retry_frame [OF g, of 12] obtain row' where
    "get_job ''d'' (snd (dlq_retry ''d'' 12 [job_a, job_d])) = Some row'"
    "command row' = command job_d" "priority row' = priority job_d"
    "max_retries row' = max_retries job_d" "created_at row' = created_at job_d"
    "\<forall>n<length [job_a, job_d]. job_id ([job_a, job_d] ! n) \<noteq> ''d'' \<longrightarrow>
       snd (dlq_retry ''d'' 12 [job_a, job_d]) ! n = [job_a, job_d] ! n"
    by blast
  then show ?thesis using g a f by metis
qed

text \<open>
  C8, as the code has it. Re-enqueueing an existing id rewrites the stored row to the
  supplied command, state, attempts, \<open>max_retries\<close>, \<open>updated_at\<close>, \<open>next_run_at\<close>, last
  error, priority and worker id, and keeps the row's \<open>created_at\<close>; rows with another id
  are untouched. After \<open>enqueue\<close> the attempts are zero.
\<close>

theorem upsert_job_conflict:
  assumes "get_job (job_id j) s = Some old"
  shows "get_job (job_id j) (upsert_job j s) = Some (j\<lparr>created_at := created_at old\<rparr>) \<and>
         map job_id (upsert_job j s) = map job_id s \<and>
         (\<forall>n<length s. job_id (s ! n) \<noteq> job_id j \<longrightarrow> upsert_job j s ! n = s ! n) \<and>
         (\<exists>r. get_job (job_id j) (enqueue (job_id j) cmd maxr cfg prio now s) = Some r \<and>
              attempts r = 0 \<and> state r = Pending \<and> command r = cmd \<and> priority r = prio \<and>
              updated_at r = now \<and> next_run_at r = now \<and> created_at r = created_at old)"
proof -
  have mem: "job_id j \<in> set (map job_id s)"
    using assms get_job_None [of "job_id j" s] by simp
  have "\<exists>r. get_job (job_id j) (enqueue (job_id j) cmd maxr cfg prio now s) = Some r \<and>
            attempts r = 0 \<and> state r = Pending \<and> command r = cmd \<and> priority r = prio \<and>
            updated_at r = now \<and> next_run_at r = now \<and> created_at r = created_at old"
  proof -
    let ?n = "\<lparr>job_id = job_id j, command = cmd, state = Pending, attempts = 0,
                 max_retries = (case maxr of Some m \<Rightarrow> m | None \<Rightarrow> cfg),
                 created_at = now, updated_at = now, next_run_at = now,
                 last_error = None, priority = prio, worker_id = None\<rparr>"
    have "get_job (job_id ?n) s = Some old" using assms by simp
    from upsert_job_existing [OF this] show ?thesis by (simp add: enqueue_def)
  qed
  then show ?thesis
    using upsert_job_existing [OF assms] upsert_job_existing_rows(2,3) [OF mem] by simp
qed

theorem upsert_job_conflict_witness:
  "get_job (job_id (job_b\<lparr>job_id := ''a''\<rparr>)) [job_a, job_d] = Some job_a \<and>
   get_job ''a'' (upsert_job (job_b\<lparr>job_id := ''a''\<rparr>) [job_a, job_d]) =
     Some (job_b\<lparr>job_id := ''a'', created_at := 1\<rparr>) \<and>
   upsert_job (job_b\<lparr>job_id := ''a''\<rparr>) [job_a, job_d] ! 1 = job_d"
proof -
  have g: "get_job (job_id (job_b\<lparr>job_id := ''a''\<rparr>)) [job_a, job_d] = Some job_a"
    by (simp add: get_job_def job_a_def)
  have a: "1 < length [job_a, job_d]"
    "job_id ([job_a, job_d] ! 1) \<noteq> job_id (job_b\<lparr>job_id := ''a''\<rparr>)"
    "[job_a, job_d] ! 1 = job_d" "created_at job_a = 1" "job_id (job_b\<lparr>job_id := ''a''\<rparr>) = ''a''"
    by (simp_all add: job_a_def job_d_def)
  show ?thesis
    using g a upsert_job_conflict [OF g] by simp
qed

theorem upsert_job_created_at_counterexample:
  "map created_at (enqueue ''a'' ''true'' None 3 0 20 (enqueue ''a'' ''true'' None 3 0 10 [])) = [10]
   \<and> map attempts (enqueue ''a'' ''true'' None 3 0 20 (enqueue ''a'' ''true'' None 3 0 10 [])) = [0]
   \<and> (10::real) \<noteq> 20"
  by (simp add: enqueue_def upsert_job_def update_rows_def)

section \<open>Backoff delay\<close>

lemma dbl_max_eq: "dbl_max = 2 ^ 1024 - 2 ^ 971"
proof -
  have "(2::real) ^ 1024 = 2 ^ 53 * 2 ^ 971" by (simp flip: power_add)
  then show ?thesis by (simp add: dbl_max_def algebra_simps)
qed

lemma pow2_le_dbl_max: "n \<le> 1023 \<Longrightarrow> (2::real) ^ n \<le> dbl_max"
proof -
  assume "n \<le> 1023"
  then have "(2::real) ^ n \<le> 2 ^ 1023" by (intro power_increasing) simp_all
  moreover have "(2::real) ^ 971 \<le> 2 ^ 1023" by (intro power_increasing) simp_all
  moreover have "(2::real) ^ 1024 = 2 * 2 ^ 1023" by (simp flip: power_Suc)
  ultimately show ?thesis by (simp add: dbl_max_eq)
qed

lemma dbl_max_pos: "2 \<le> dbl_max"
  using pow2_le_dbl_max [of 1] by simp

text \<open>
  C6, as the code has it. For non-negative attempts, \<open>backoff_delay(base, attempts)\<close> is
  \<open>base ** attempts\<close> whenever \<open>float(base)\<close> succeeds and the power is within the range of
  a float, whatever the sign of the base: the code has no test for a positive base. It is
  \<open>2.0 ** attempts\<close> when \<open>float(base)\<close> raises or the power overflows (attempts up to
  1023, where \<open>2.0 ** attempts\<close> is itself in range).
\<close>

theorem backoff_delay_power:
  assumes "0 \<le> att"
  shows "(\<bar>b ^ nat att\<bar> \<le> dbl_max \<longrightarrow> backoff_delay (Castable b) att = Inr (b ^ nat att)) \<and>
         (att \<le> 1023 \<longrightarrow> backoff_delay Uncastable att = Inr (2 ^ nat att)) \<and>
         (att \<le> 1023 \<and> \<bar>b ^ nat att\<bar> > dbl_max \<longrightarrow>
            backoff_delay (Castable b) att = Inr (2 ^ nat att))"
proof -
  have two: "float_pow 2 att = Inr (2 ^ nat att)" if "att \<le> 1023"
  proof -
    have "nat att \<le> 1023" using that by simp
    then have "(2::real) ^ nat att \<le> dbl_max" by (rule pow2_le_dbl_max)
    then show ?thesis using assms by (simp add: float_pow_def)
  qed
  show ?thesis
    using assms two by (auto simp: backoff_delay_def float_pow_def Let_def)
qed

theorem backoff_delay_power_witness:
  "(0::int) \<le> 3 \<and> \<bar>(-3::real) ^ nat 3\<bar> \<le> dbl_max \<and> (3::int) \<le> 1023 \<and>
   backoff_delay (Castable (-3)) 3 = Inr (-27) \<and>
   backoff_delay Uncastable 3 = Inr 8"
proof -
  have h: "(0::int) \<le> 3" "(3::int) \<le> 1023" by simp_all
  have "\<bar>(-3::real) ^ nat 3\<bar> = 27" by (simp add: eval_nat_numeral)
  moreover have "(27::real) \<le> dbl_max" using pow2_le_dbl_max [of 5] by simp
  ultimately have r: "\<bar>(-3::real) ^ nat 3\<bar> \<le> dbl_max" by simp
  have p: "(-3::real) ^ nat 3 = -27" "(2::real) ^ nat 3 = 8" by (simp_all add: eval_nat_numeral)
  show ?thesis
    using h r p backoff_delay_power [OF h(1), of "-3"] by simp
qed

theorem backoff_delay_nonpositive_counterexample:
  "backoff_delay (Castable 0) 1 = Inr 0 \<and> backoff_delay (Castable (-2)) 1 = Inr (-2) \<and>
   float_pow 2 1 = Inr 2"
  using dbl_max_pos by (simp add: backoff_delay_def float_pow_def)

section \<open>Updates and retry times\<close>

lemma update_rows_none: "\<forall>r\<in>set s. \<not> c r \<Longrightarrow> update_rows c f s = s"
  by (simp add: update_rows_def map_idI)

lemma ball_update_rows:
  "(\<forall>r\<in>set (update_rows c f s). P r) \<longleftrightarrow> (\<forall>r\<in>set s. if c r then P (f r) else P r)"
  by (auto simp: update_rows_def)

lemma float_pow_in_range:
  "0 \<le> n \<Longrightarrow> \<bar>b ^ nat n\<bar> \<le> dbl_max \<Longrightarrow> float_pow b n = Inr (b ^ nat n)"
  by (simp add: float_pow_def)

lemma next_run_base2:
  assumes "0 \<le> a" and "a \<le> 36"
  shows "next_run (Some 2) a t = datetime_add t (2 ^ nat a)"
proof -
  have n: "nat a \<le> 36" using assms by simp
  then have "(2::real) ^ nat a \<le> dbl_max" by (intro pow2_le_dbl_max) simp
  then have fp: "float_pow 2 a = Inr (2 ^ nat a)"
    using assms(1) by (simp add: float_pow_in_range)
  have "(2::real) ^ nat a \<le> 2 ^ 36" using n by (intro power_increasing) simp_all
  then have "(2::real) ^ nat a < 86400000000000" by simp
  moreover have "- 86399999913600 \<le> (2::real) ^ nat a"
    by (rule order_trans [of _ 0]) simp_all
  ultimately have "timedelta (2 ^ nat a) = Inr (2 ^ nat a)" by (simp add: timedelta_def)
  with fp show ?thesis by (simp add: next_run_def backoff_delay_def)
qed

section \<open>Attempts and the retry budget\<close>

lemmas run_defs = engine0_def enqueue_def upsert_job_def recover_processing_def update_rows_def
  fetch_and_lock_next_job_def select_next_def ready_def precedes_def get_job_def
  mark_completed_def mark_failed_or_dead_def dlq_retry_def finalize_def

lemma update_rows_ids_cond:
  "\<forall>r\<in>set s. c r \<longrightarrow> job_id (f r) = job_id r \<Longrightarrow> map job_id (update_rows c f s) = map job_id s"
  by (induction s) (simp_all add: update_rows_def)

lemma distinct_ids_unique:
  "distinct (map job_id s) \<Longrightarrow> r \<in> set s \<Longrightarrow> r' \<in> set s \<Longrightarrow> job_id r = job_id r' \<Longrightarrow> r = r'"
  by (metis distinct_map inj_on_def)

lemma update_rows_counted:
  assumes "distinct (map job_id s)" and "\<forall>r\<in>set s. row_ok r" and "\<forall>p\<in>set h. held_ok s (snd p)"
    and "\<forall>r\<in>set s. c r \<longrightarrow> job_id (f r) = job_id r \<and> row_ok (f r) \<and>
           (max_retries (f r) = max_retries r \<or> job_id r \<notin> set (map (\<lambda>p. job_id (snd p)) h))"
  shows "distinct (map job_id (update_rows c f s))"
    and "\<forall>r\<in>set (update_rows c f s). row_ok r"
    and "\<forall>p\<in>set h. held_ok (update_rows c f s) (snd p)"
proof -
  show "distinct (map job_id (update_rows c f s))"
    using assms(1,4) by (simp add: update_rows_ids_cond)
  show "\<forall>r\<in>set (update_rows c f s). row_ok r"
    using assms(2,4) by (simp add: ball_update_rows)
  show "\<forall>p\<in>set h. held_ok (update_rows c f s) (snd p)"
  proof
    fix p assume p: "p \<in> set h"
    then have ok: "held_ok s (snd p)" using assms(3) by blast
    have "max_retries r' = max_retries (snd p)"
      if "r' \<in> set (update_rows c f s)" "job_id r' = job_id (snd p)" for r'
    proof -
      from that(1) obtain r where r: "r \<in> set s" "r' = (if c r then f r else r)"
        by (auto simp: update_rows_def)
      show ?thesis
      proof (cases "c r")
        case True
        then have a: "job_id (f r) = job_id r"
          "max_retries (f r) = max_retries r \<or> job_id r \<notin> set (map (\<lambda>p. job_id (snd p)) h)"
          using assms(4) r(1) by blast+
        then have "job_id r = job_id (snd p)" using that(2) r(2) True by simp
        moreover from this have "job_id r \<in> set (map (\<lambda>p. job_id (snd p)) h)" using p by force
        ultimately show ?thesis using a ok r True by (auto simp: held_ok_def)
      next
        case False
        then show ?thesis using ok r that(2) by (auto simp: held_ok_def)
      qed
    qed
    then show "held_ok (update_rows c f s) (snd p)" using ok by (simp add: held_ok_def)
  qed
qed

lemma counted_update:
  assumes "counted e"
    and "\<forall>r\<in>set (jobs e). c r \<longrightarrow> job_id (f r) = job_id r \<and> row_ok (f r) \<and>
           (max_retries (f r) = max_retries r \<or> job_id r \<notin> set (map (\<lambda>p. job_id (snd p)) (held e)))"
  shows "counted (e\<lparr>jobs := update_rows c f (jobs e)\<rparr>)"
proof -
  have d: "distinct (map job_id (jobs e))" and r: "\<forall>r\<in>set (jobs e). row_ok r"
    and h: "\<forall>p\<in>set (held e). held_ok (jobs e) (snd p)"
    using assms(1) by (simp_all add: counted_def)
  have "distinct (map job_id (update_rows c f (jobs e)))"
    and "\<forall>r\<in>set (update_rows c f (jobs e)). row_ok r"
    and "\<forall>p\<in>set (held e). held_ok (update_rows c f (jobs e)) (snd p)"
    by (rule update_rows_counted [OF d r h assms(2)])+
  then show ?thesis unfolding counted_def by simp
qed

lemma counted_release:
  "counted e \<Longrightarrow> counted (e\<lparr>held := filter q (held e)\<rparr>)"
  by (simp add: counted_def)

lemma counted_enqueue:
  assumes "counted e" and "admissible (Enqueue i cmd maxr cfg prio now) e"
  shows "counted (engine_step (Enqueue i cmd maxr cfg prio now) e)"
proof (cases "i \<in> set (map job_id (jobs e))")
  case True
  let ?m = "case maxr of Some m \<Rightarrow> m | None \<Rightarrow> cfg"
  let ?f = "\<lambda>r::job. r\<lparr>command := cmd, state := Pending, attempts := 0, max_retries := ?m,
                updated_at := now, next_run_at := now, last_error := None, priority := prio,
                worker_id := None\<rparr>"
  have eq: "engine_step (Enqueue i cmd maxr cfg prio now) e
              = e\<lparr>jobs := update_rows (\<lambda>r. job_id r = i) ?f (jobs e)\<rparr>"
    using True by (simp add: enqueue_def upsert_job_def)
  have m: "1 \<le> ?m" and nh: "i \<notin> set (map (\<lambda>p. job_id (snd p)) (held e))"
    using assms(2) by simp_all
  have ok: "row_ok (?f r)" for r using m by (simp add: row_ok_def)
  have cond: "\<forall>r\<in>set (jobs e). job_id r = i \<longrightarrow> job_id (?f r) = job_id r \<and> row_ok (?f r) \<and>
           (max_retries (?f r) = max_retries r \<or> job_id r \<notin> set (map (\<lambda>p. job_id (snd p)) (held e)))"
    using ok nh by simp
  show ?thesis unfolding eq by (rule counted_update [OF assms(1) cond])
next
  case False
  let ?m = "case maxr of Some m \<Rightarrow> m | None \<Rightarrow> cfg"
  let ?j = "\<lparr>job_id = i, command = cmd, state = Pending, attempts = 0, max_retries = ?m,
             created_at = now, updated_at = now, next_run_at = now, last_error = None,
             priority = prio, worker_id = None\<rparr>"
  have eq: "engine_step (Enqueue i cmd maxr cfg prio now) e = e\<lparr>jobs := jobs e @ [?j]\<rparr>"
    using False by (simp add: enqueue_def upsert_job_def)
  have m: "1 \<le> ?m" and nh: "i \<notin> set (map (\<lambda>p. job_id (snd p)) (held e))"
    using assms(2) by simp_all
  have d: "distinct (map job_id (jobs e @ [?j]))"
    using assms(1) False by (simp add: counted_def)
  have r: "\<forall>r\<in>set (jobs e @ [?j]). row_ok r"
    using assms(1) m by (simp add: counted_def row_ok_def)
  have h: "\<forall>p\<in>set (held e). held_ok (jobs e @ [?j]) (snd p)"
  proof
    fix p assume p: "p \<in> set (held e)"
    then have "held_ok (jobs e) (snd p)" using assms(1) by (simp add: counted_def)
    moreover have "job_id (snd p) \<noteq> i" using nh p by force
    ultimately show "held_ok (jobs e @ [?j]) (snd p)" by (simp add: held_ok_def)
  qed
  show ?thesis unfolding eq using d r h by (simp add: counted_def)
qed

lemma counted_worker_start:
  assumes "counted e"
  shows "counted (engine_step (WorkerStart w now) e)"
proof -
  let ?f = "\<lambda>r::job. r\<lparr>state := Failed, next_run_at := now, worker_id := None, updated_at := now\<rparr>"
  have eq: "engine_step (WorkerStart w now) e
              = e\<lparr>jobs := update_rows (\<lambda>r. state r = Processing) ?f (jobs e)\<rparr>"
    by (simp add: recover_processing_def)
  have rows: "\<forall>r\<in>set (jobs e). row_ok r" using assms by (simp add: counted_def)
  have cond: "\<forall>r\<in>set (jobs e). state r = Processing \<longrightarrow> job_id (?f r) = job_id r \<and> row_ok (?f r) \<and>
           (max_retries (?f r) = max_retries r \<or> job_id r \<notin> set (map (\<lambda>p. job_id (snd p)) (held e)))"
    using rows by (simp add: row_ok_def)
  show ?thesis unfolding eq by (rule counted_update [OF assms cond])
qed

lemma counted_claim:
  assumes "counted e"
  shows "counted (engine_step (Claim w now) e)"
proof (cases "map_of (held e) w")
  case (Some j)
  then show ?thesis using assms by simp
next
  case None
  let ?f = "\<lambda>r::job. r\<lparr>state := Processing, worker_id := Some w, updated_at := now\<rparr>"
  show ?thesis
  proof (cases "select_next now (jobs e)")
    case N: None
    then show ?thesis using assms None by (simp add: fetch_and_lock_next_job_def)
  next
    case (Some row)
    then have row: "row \<in> set (jobs e)" "ready now row" using select_next_Some by blast+
    have d: "distinct (map job_id (jobs e))" using assms by (simp add: counted_def)
    have rok: "row_ok row" using assms row(1) by (simp add: counted_def)
    let ?s' = "update_rows (\<lambda>r. job_id r = job_id row) ?f (jobs e)"
    have "get_job (job_id row) ?s' = map_option ?f (get_job (job_id row) (jobs e))"
      by (rule get_job_update_same) simp
    then have g: "get_job (job_id row) ?s' = Some (?f row)"
      using d row(1) by (simp add: get_job_distinct)
    have same: "r = row" if "r \<in> set (jobs e)" "job_id r = job_id row" for r
      using distinct_ids_unique [OF d that(1) row(1) that(2)] .
    have frow: "row_ok (?f row)" "attempts row < max_retries row" "0 \<le> attempts row"
      using rok row(2) by (auto simp: row_ok_def ready_def)
    have cond: "\<forall>r\<in>set (jobs e). job_id r = job_id row \<longrightarrow> job_id (?f r) = job_id r \<and> row_ok (?f r) \<and>
           (max_retries (?f r) = max_retries r \<or> job_id r \<notin> set (map (\<lambda>p. job_id (snd p)) (held e)))"
      using same frow(1) by auto
    have c1: "counted (e\<lparr>jobs := ?s'\<rparr>)" by (rule counted_update [OF assms cond])
    have "\<forall>r\<in>set ?s'. job_id r = job_id row \<longrightarrow> max_retries r = max_retries row"
      using same by (auto simp: ball_update_rows)
    then have "held_ok ?s' (?f row)"
      using frow by (simp add: held_ok_def)
    then have "counted (e\<lparr>jobs := ?s', held := (w, ?f row) # held e\<rparr>)"
      using c1 by (simp add: counted_def)
    then show ?thesis
      using None Some g by (simp add: fetch_and_lock_next_job_def Let_def)
  qed
qed

lemma counted_finish:
  assumes "counted e"
  shows "counted (engine_step (Finish w rc err cfg_base now_run now_mark) e)"
proof (cases "map_of (held e) w")
  case None
  then show ?thesis using assms by simp
next
  case (Some j)
  then have "(w, j) \<in> set (held e)" by (rule map_of_SomeD)
  then have hj: "held_ok (jobs e) j" using assms by (force simp: counted_def)
  have rows: "\<forall>r\<in>set (jobs e). row_ok r" using assms by (simp add: counted_def)
  show ?thesis
  proof (cases "finalize j rc err cfg_base now_run now_mark (jobs e)")
    case (Inl x)
    then show ?thesis using Some assms by (simp add: counted_release)
  next
    case (Inr s')
    have "\<exists>f. s' = update_rows (\<lambda>r. job_id r = job_id j) f (jobs e) \<and>
            (\<forall>r\<in>set (jobs e). job_id r = job_id j \<longrightarrow> job_id (f r) = job_id r \<and> row_ok (f r) \<and>
               max_retries (f r) = max_retries r)"
    proof (cases "rc = 0")
      case True
      then have "s' = update_rows (\<lambda>r. job_id r = job_id j)
          (\<lambda>r. r\<lparr>state := Completed, updated_at := now_mark, worker_id := None\<rparr>) (jobs e)"
        using Inr by (simp add: finalize_def mark_completed_def)
      moreover have "\<forall>r\<in>set (jobs e). job_id r = job_id j \<longrightarrow>
          row_ok (r\<lparr>state := Completed, updated_at := now_mark, worker_id := None\<rparr>)"
        using rows by (simp add: row_ok_def)
      ultimately show ?thesis by (intro exI conjI) (assumption, simp)
    next
      case False
      then obtain nr where nr: "next_run cfg_base (attempts j + 1) now_run = Inr nr"
        using Inr by (auto simp: finalize_def split: sum.splits)
      show ?thesis
      proof (cases "max_retries j \<le> attempts j + 1")
        case True
        then have "s' = update_rows (\<lambda>r. job_id r = job_id j)
            (\<lambda>r. r\<lparr>state := Dead, attempts := attempts j + 1, last_error := Some (take 512 err),
                    updated_at := now_mark, worker_id := None\<rparr>) (jobs e)"
          using Inr False nr by (simp add: finalize_def mark_failed_or_dead_def)
        moreover have "\<forall>r\<in>set (jobs e). job_id r = job_id j \<longrightarrow>
            row_ok (r\<lparr>state := Dead, attempts := attempts j + 1, last_error := Some (take 512 err),
                    updated_at := now_mark, worker_id := None\<rparr>)"
          using rows hj by (auto simp: row_ok_def held_ok_def)
        ultimately show ?thesis by (intro exI conjI) (assumption, simp)
      next
        case F: False
        then have "s' = update_rows (\<lambda>r. job_id r = job_id j)
            (\<lambda>r. r\<lparr>state := Failed, attempts := attempts j + 1, last_error := Some (take 512 err),
                    next_run_at := nr, updated_at := now_mark, worker_id := None\<rparr>) (jobs e)"
          using Inr False nr by (simp add: finalize_def mark_failed_or_dead_def)
        moreover have "\<forall>r\<in>set (jobs e). job_id r = job_id j \<longrightarrow>
            row_ok (r\<lparr>state := Failed, attempts := attempts j + 1, last_error := Some (take 512 err),
                    next_run_at := nr, updated_at := now_mark, worker_id := None\<rparr>)"
          using rows hj F by (auto simp: row_ok_def held_ok_def)
        ultimately show ?thesis by (intro exI conjI) (assumption, simp)
      qed
    qed
    then obtain f where f: "s' = update_rows (\<lambda>r. job_id r = job_id j) f (jobs e)"
      "\<forall>r\<in>set (jobs e). job_id r = job_id j \<longrightarrow> job_id (f r) = job_id r \<and> row_ok (f r) \<and>
               max_retries (f r) = max_retries r"
      by blast
    have cond: "\<forall>r\<in>set (jobs e). job_id r = job_id j \<longrightarrow> job_id (f r) = job_id r \<and> row_ok (f r) \<and>
           (max_retries (f r) = max_retries r \<or> job_id r \<notin> set (map (\<lambda>p. job_id (snd p)) (held e)))"
      using f(2) by blast
    have "counted (e\<lparr>jobs := update_rows (\<lambda>r. job_id r = job_id j) f (jobs e)\<rparr>)"
      by (rule counted_update [OF assms cond])
    then have "counted (e\<lparr>jobs := s', held := filter (\<lambda>p. fst p \<noteq> w) (held e)\<rparr>)"
      using f(1) by (simp add: counted_def)
    then show ?thesis using Some Inr by simp
  qed
qed

lemma counted_dlq_retry:
  assumes "counted e"
  shows "counted (engine_step (DlqRetry i now) e)"
proof (cases "\<exists>row. get_job i (jobs e) = Some row \<and> state row = Dead")
  case False
  then have "dlq_retry i now (jobs e) = (Inl (Exit 1), jobs e)"
    by (auto simp: dlq_retry_def split: option.splits)
  then show ?thesis using assms by simp
next
  case True
  then obtain row where row: "get_job i (jobs e) = Some row" "state row = Dead" by blast
  then have m: "row \<in> set (jobs e)" "job_id row = i" using get_job_Some by blast+
  have d: "distinct (map job_id (jobs e))" using assms by (simp add: counted_def)
  have rok: "row_ok row" using assms m(1) by (simp add: counted_def)
  let ?g = "\<lambda>r::job. r\<lparr>command := command row, state := Pending, attempts := 0,
                max_retries := max_retries row, updated_at := now, next_run_at := now,
                last_error := None, priority := priority row, worker_id := None\<rparr>"
  have mem: "i \<in> set (map job_id (jobs e))" using m by force
  have eq: "snd (dlq_retry i now (jobs e)) = update_rows (\<lambda>r. job_id r = i) ?g (jobs e)"
    using dlq_retry_dead(1) [OF row, of now] m(2) mem by (simp add: upsert_job_def)
  have same: "r = row" if "r \<in> set (jobs e)" "job_id r = i" for r
    using distinct_ids_unique [OF d that(1) m(1)] that(2) m(2) by simp
  have grow: "row_ok (?g row)" "max_retries (?g row) = max_retries row" "job_id (?g row) = job_id row"
    using rok by (simp_all add: row_ok_def)
  have cond: "\<forall>r\<in>set (jobs e). job_id r = i \<longrightarrow> job_id (?g r) = job_id r \<and> row_ok (?g r) \<and>
           (max_retries (?g r) = max_retries r \<or> job_id r \<notin> set (map (\<lambda>p. job_id (snd p)) (held e)))"
    using same grow by auto
  have "counted (e\<lparr>jobs := update_rows (\<lambda>r. job_id r = i) ?g (jobs e)\<rparr>)"
    by (rule counted_update [OF assms cond])
  then show ?thesis using eq by simp
qed

lemma counted_step:
  "counted e \<Longrightarrow> admissible ev e \<Longrightarrow> counted (engine_step ev e)"
  by (cases ev)
    (simp_all only: counted_enqueue counted_worker_start counted_claim counted_finish
      counted_dlq_retry)

lemma counted_run:
  "counted e \<Longrightarrow> admissible_run evs e \<Longrightarrow> counted (run evs e)"
  by (induction evs arbitrary: e) (simp_all add: counted_step)

lemma counted_engine0: "counted engine0"
  by (simp add: counted_def engine0_def)

text \<open>
  C5, as the code has it. In every state reached from the empty store by enqueues, worker
  starts (recovery), claims, finalizations of claimed jobs and dead-letter retries, every
  row has \<open>0 \<le> attempts \<le> max_retries\<close>, provided that every enqueue carries
  \<open>max_retries \<ge> 1\<close> and that no id is enqueued again while a worker holds a job of that
  id. A job enqueued with \<open>max_retries = 0\<close> is run once and ends with attempts 1.
\<close>

theorem attempts_within_max_retries:
  assumes "admissible_run evs engine0"
  shows "\<forall>r\<in>set (jobs (run evs engine0)). 0 \<le> attempts r \<and> attempts r \<le> max_retries r"
  using counted_run [OF counted_engine0 assms] by (simp add: counted_def row_ok_def)

theorem attempts_within_max_retries_witness:
  "admissible_run [Enqueue ''j'' ''false'' (Some 1) 3 0 1, WorkerStart ''w1'' 2, Claim ''w1'' 3,
                   Finish ''w1'' 1 ''boom'' (Some 2) 4 5, Enqueue ''k'' ''true'' None 3 0 6] engine0 \<and>
   list_all (\<lambda>r. 0 \<le> attempts r \<and> attempts r \<le> max_retries r)
     (jobs (run [Enqueue ''j'' ''false'' (Some 1) 3 0 1, WorkerStart ''w1'' 2,
                 Claim ''w1'' 3, Finish ''w1'' 1 ''boom'' (Some 2) 4 5,
                 Enqueue ''k'' ''true'' None 3 0 6] engine0))"
proof -
  have nr: "next_run (Some 2) 1 4 = Inr 6" by (simp add: next_run_base2 datetime_add_def)
  have a: "admissible_run [Enqueue ''j'' ''false'' (Some 1) 3 0 1, WorkerStart ''w1'' 2,
                   Claim ''w1'' 3, Finish ''w1'' 1 ''boom'' (Some 2) 4 5,
                   Enqueue ''k'' ''true'' None 3 0 6] engine0"
    by (simp add: run_defs nr)
  show ?thesis using a attempts_within_max_retries [OF a] by (simp only: list_all_iff)
qed

theorem attempts_exceed_zero_budget_counterexample:
  "map (\<lambda>r. (state r, attempts r, max_retries r))
     (jobs (run [Enqueue ''j'' ''false'' (Some 0) 3 0 1, WorkerStart ''w1'' 2, Claim ''w1'' 3,
                 Finish ''w1'' 1 ''boom'' (Some 2) 4 5] engine0))
   = [(Dead, 1, 0)]"
proof -
  have nr: "next_run (Some 2) 1 4 = Inr 6" by (simp add: next_run_base2 datetime_add_def)
  show ?thesis by (simp add: run_defs nr)
qed

section \<open>Two workers and one job\<close>

text \<open>
  C2, at a run of two workers. Worker \<open>w1\<close> starts and claims job \<open>j\<close>; worker \<open>w2\<close> then
  starts, and its \<open>recover_processing\<close> at the entry of \<open>worker_loop\<close> rewrites every
  processing row to failed, the row that \<open>w1\<close> holds included; the claim of \<open>w2\<close> returns
  the same job while \<open>w1\<close> has not finalized it.
\<close>

theorem recover_processing_double_claim:
  "map (\<lambda>p. (fst p, job_id (snd p), state (snd p)))
     (held (run [Enqueue ''j'' ''sleep 5'' None 3 0 1, WorkerStart ''w1'' 2, Claim ''w1'' 3,
                 WorkerStart ''w2'' 4, Claim ''w2'' 5] engine0))
   = [(''w2'', ''j'', Processing), (''w1'', ''j'', Processing)]"
  by (simp add: run_defs)

section \<open>Terminal states\<close>

lemma update_rows_keeps: "r \<in> set s \<Longrightarrow> \<not> c r \<Longrightarrow> r \<in> set (update_rows c f s)"
  by (force simp: update_rows_def)

lemma upsert_job_keeps: "r \<in> set s \<Longrightarrow> job_id r \<noteq> job_id j \<Longrightarrow> r \<in> set (upsert_job j s)"
  by (simp add: upsert_job_def update_rows_keeps)

lemma upsert_job_distinct: "distinct (map job_id s) \<Longrightarrow> distinct (map job_id (upsert_job j s))"
  by (simp add: upsert_job_def update_rows_ids)

lemma upsert_job_unowned:
  assumes "\<forall>r\<in>set s. state r \<noteq> Processing \<longrightarrow> worker_id r = None"
    and "state j \<noteq> Processing \<longrightarrow> worker_id j = None"
  shows "\<forall>r\<in>set (upsert_job j s). state r \<noteq> Processing \<longrightarrow> worker_id r = None"
  using assms by (simp add: upsert_job_def ball_update_rows)

lemma finalize_rows:
  assumes "finalize j rc err cfg_base now_run now_mark s = Inr s'"
  shows "\<exists>f. s' = update_rows (\<lambda>r. job_id r = job_id j) f s \<and>
           (\<forall>r. job_id (f r) = job_id r \<and> state (f r) \<noteq> Processing \<and> worker_id (f r) = None)"
proof (cases "rc = 0")
  case True
  then have "s' = update_rows (\<lambda>r. job_id r = job_id j)
      (\<lambda>r. r\<lparr>state := Completed, updated_at := now_mark, worker_id := None\<rparr>) s"
    using assms by (simp add: finalize_def mark_completed_def)
  then show ?thesis by (intro exI conjI) (assumption, simp)
next
  case False
  then obtain nr where nr: "next_run cfg_base (attempts j + 1) now_run = Inr nr"
    using assms by (auto simp: finalize_def split: sum.splits)
  show ?thesis
  proof (cases "max_retries j \<le> attempts j + 1")
    case True
    then have "s' = update_rows (\<lambda>r. job_id r = job_id j)
        (\<lambda>r. r\<lparr>state := Dead, attempts := attempts j + 1, last_error := Some (take 512 err),
                updated_at := now_mark, worker_id := None\<rparr>) s"
      using assms False nr by (simp add: finalize_def mark_failed_or_dead_def)
    then show ?thesis by (intro exI conjI) (assumption, simp)
  next
    case F: False
    then have "s' = update_rows (\<lambda>r. job_id r = job_id j)
        (\<lambda>r. r\<lparr>state := Failed, attempts := attempts j + 1, last_error := Some (take 512 err),
                next_run_at := nr, updated_at := now_mark, worker_id := None\<rparr>) s"
      using assms False nr by (simp add: finalize_def mark_failed_or_dead_def)
    then show ?thesis by (intro exI conjI) (assumption, simp)
  qed
qed

lemma fetch_rows:
  "\<exists>c. snd (fetch_and_lock_next_job w now s) =
        update_rows c (\<lambda>r. r\<lparr>state := Processing, worker_id := Some w, updated_at := now\<rparr>) s \<and>
       (\<forall>r\<in>set s. c r \<longrightarrow> (\<exists>row\<in>set s. ready now row \<and> job_id r = job_id row))"
proof (cases "select_next now s")
  case None
  then have "snd (fetch_and_lock_next_job w now s) =
      update_rows (\<lambda>r. False) (\<lambda>r. r\<lparr>state := Processing, worker_id := Some w, updated_at := now\<rparr>) s"
    by (simp add: fetch_and_lock_next_job_def update_rows_none)
  then show ?thesis by (intro exI conjI) (assumption, simp)
next
  case (Some row)
  then have "row \<in> set s" "ready now row" using select_next_Some by blast+
  moreover have "snd (fetch_and_lock_next_job w now s) =
      update_rows (\<lambda>r. job_id r = job_id row)
        (\<lambda>r. r\<lparr>state := Processing, worker_id := Some w, updated_at := now\<rparr>) s"
    using Some by (simp add: fetch_and_lock_next_job_def Let_def)
  ultimately show ?thesis by (intro exI conjI) (assumption, blast)
qed

lemma jobs_claim:
  "jobs (engine_step (Claim w now) e) = jobs e \<or>
   jobs (engine_step (Claim w now) e) = snd (fetch_and_lock_next_job w now (jobs e))"
  by (cases "map_of (held e) w"; cases "fetch_and_lock_next_job w now (jobs e)"; cases "fst (fetch_and_lock_next_job w now (jobs e))")
     auto

lemma jobs_finish:
  "jobs (engine_step (Finish w rc err cfg_base now_run now_mark) e) = jobs e \<or>
   (\<exists>j s'. map_of (held e) w = Some j \<and>
      finalize j rc err cfg_base now_run now_mark (jobs e) = Inr s' \<and>
      jobs (engine_step (Finish w rc err cfg_base now_run now_mark) e) = s')"
  by (auto split: option.splits sum.splits)

lemma jobs_dlq_retry:
  "jobs (engine_step (DlqRetry i now) e) = jobs e \<or>
   (\<exists>row. get_job i (jobs e) = Some row \<and>
      jobs (engine_step (DlqRetry i now) e) =
        upsert_job (row\<lparr>state := Pending, attempts := 0, last_error := None,
                        next_run_at := now, updated_at := now, worker_id := None\<rparr>) (jobs e))"
  by (auto simp: dlq_retry_def split: option.splits)

lemma tidy_update:
  assumes "tidy e" and "\<forall>r. job_id (f r) = job_id r \<and> (state (f r) \<noteq> Processing \<longrightarrow> worker_id (f r) = None)"
  shows "distinct (map job_id (update_rows c f (jobs e))) \<and>
         (\<forall>r\<in>set (update_rows c f (jobs e)). state r \<noteq> Processing \<longrightarrow> worker_id r = None)"
  using assms by (simp add: tidy_def update_rows_ids ball_update_rows)

lemma tidy_upsert:
  assumes "tidy e" and "state j \<noteq> Processing \<longrightarrow> worker_id j = None"
  shows "distinct (map job_id (upsert_job j (jobs e))) \<and>
         (\<forall>r\<in>set (upsert_job j (jobs e)). state r \<noteq> Processing \<longrightarrow> worker_id r = None)"
proof
  show "distinct (map job_id (upsert_job j (jobs e)))"
    using assms(1) by (intro upsert_job_distinct) (simp add: tidy_def)
  have "\<forall>r\<in>set (jobs e). state r \<noteq> Processing \<longrightarrow> worker_id r = None"
    using assms(1) by (simp add: tidy_def)
  then show "\<forall>r\<in>set (upsert_job j (jobs e)). state r \<noteq> Processing \<longrightarrow> worker_id r = None"
    using assms(2) by (rule upsert_job_unowned)
qed

lemma tidy_step: "tidy e \<Longrightarrow> tidy (engine_step ev e)"
proof (cases ev)
  case (Enqueue i cmd maxr cfg prio now)
  assume t: "tidy e"
  let ?j = "\<lparr>job_id = i, command = cmd, state = Pending, attempts = 0,
             max_retries = (case maxr of Some m \<Rightarrow> m | None \<Rightarrow> cfg),
             created_at = now, updated_at = now, next_run_at = now,
             last_error = None, priority = prio, worker_id = None\<rparr>"
  have "state ?j \<noteq> Processing \<longrightarrow> worker_id ?j = None" by simp
  from tidy_upsert [OF t this] show ?thesis
    using Enqueue by (simp add: tidy_def enqueue_def)
next
  case (WorkerStart w now)
  assume t: "tidy e"
  let ?f = "\<lambda>r::job. r\<lparr>state := Failed, next_run_at := now, worker_id := None, updated_at := now\<rparr>"
  have "distinct (map job_id (update_rows (\<lambda>r. state r = Processing) ?f (jobs e))) \<and>
        (\<forall>r\<in>set (update_rows (\<lambda>r. state r = Processing) ?f (jobs e)).
           state r \<noteq> Processing \<longrightarrow> worker_id r = None)"
    by (rule tidy_update [OF t]) simp
  then show ?thesis
    using WorkerStart by (simp add: tidy_def recover_processing_def)
next
  case (Claim w now)
  assume t: "tidy e"
  from fetch_rows [of w now "jobs e"] obtain c where
    c: "snd (fetch_and_lock_next_job w now (jobs e)) =
        update_rows c (\<lambda>r. r\<lparr>state := Processing, worker_id := Some w, updated_at := now\<rparr>) (jobs e)"
    by blast
  have "distinct (map job_id (snd (fetch_and_lock_next_job w now (jobs e)))) \<and>
        (\<forall>r\<in>set (snd (fetch_and_lock_next_job w now (jobs e))).
           state r \<noteq> Processing \<longrightarrow> worker_id r = None)"
    unfolding c by (rule tidy_update [OF t]) simp
  then show ?thesis
    using Claim t jobs_claim [of w now e] unfolding tidy_def by metis
next
  case (Finish w rc err cfg_base now_run now_mark)
  assume t: "tidy e"
  from jobs_finish [of w rc err cfg_base now_run now_mark e]
  show ?thesis
  proof
    assume "jobs (engine_step (Finish w rc err cfg_base now_run now_mark) e) = jobs e"
    then show ?thesis using Finish t by (simp add: tidy_def)
  next
    assume "\<exists>j s'. map_of (held e) w = Some j \<and>
      finalize j rc err cfg_base now_run now_mark (jobs e) = Inr s' \<and>
      jobs (engine_step (Finish w rc err cfg_base now_run now_mark) e) = s'"
    then obtain j s' where fin: "finalize j rc err cfg_base now_run now_mark (jobs e) = Inr s'"
      and eq: "jobs (engine_step (Finish w rc err cfg_base now_run now_mark) e) = s'"
      by blast
    from finalize_rows [OF fin] obtain f where
      f: "s' = update_rows (\<lambda>r. job_id r = job_id j) f (jobs e)"
      "\<forall>r. job_id (f r) = job_id r \<and> state (f r) \<noteq> Processing \<and> worker_id (f r) = None"
      by blast
    have "distinct (map job_id s') \<and> (\<forall>r\<in>set s'. state r \<noteq> Processing \<longrightarrow> worker_id r = None)"
      unfolding f(1) using f(2) by (intro tidy_update [OF t]) simp
    then show ?thesis using Finish eq by (simp add: tidy_def)
  qed
next
  case (DlqRetry i now)
  assume t: "tidy e"
  from jobs_dlq_retry [of i now e]
  show ?thesis
  proof
    assume "jobs (engine_step (DlqRetry i now) e) = jobs e"
    then show ?thesis using DlqRetry t by (simp add: tidy_def)
  next
    assume "\<exists>row. get_job i (jobs e) = Some row \<and>
      jobs (engine_step (DlqRetry i now) e) =
        upsert_job (row\<lparr>state := Pending, attempts := 0, last_error := None,
                        next_run_at := now, updated_at := now, worker_id := None\<rparr>) (jobs e)"
    then obtain row where eq: "jobs (engine_step (DlqRetry i now) e) =
        upsert_job (row\<lparr>state := Pending, attempts := 0, last_error := None,
                        next_run_at := now, updated_at := now, worker_id := None\<rparr>) (jobs e)"
      by blast
    let ?p = "row\<lparr>state := Pending, attempts := 0, last_error := None,
                   next_run_at := now, updated_at := now, worker_id := None\<rparr>"
    have "state ?p \<noteq> Processing \<longrightarrow> worker_id ?p = None" by simp
    from tidy_upsert [OF t this] show ?thesis
      using DlqRetry eq by (simp add: tidy_def)
  qed
qed

lemma tidy_run: "tidy e \<Longrightarrow> tidy (run evs e)"
  by (induction evs arbitrary: e) (simp_all add: tidy_step)

lemma tidy_engine0: "tidy engine0"
  by (simp add: tidy_def engine0_def)

lemma terminal_row_kept:
  assumes "distinct (map job_id (jobs e))" and "r \<in> set (jobs e)"
    and "state r = Completed \<or> state r = Dead"
    and "target ev e \<noteq> Some (job_id r)"
  shows "r \<in> set (jobs (engine_step ev e))"
proof (cases ev)
  case (Enqueue i cmd maxr cfg prio now)
  then show ?thesis
    using assms(2,4) by (simp add: enqueue_def upsert_job_keeps)
next
  case (WorkerStart w now)
  then show ?thesis
    using assms(2,3) by (auto simp: recover_processing_def intro: update_rows_keeps)
next
  case (Claim w now)
  from fetch_rows [of w now "jobs e"] obtain c where
    c: "snd (fetch_and_lock_next_job w now (jobs e)) =
        update_rows c (\<lambda>r. r\<lparr>state := Processing, worker_id := Some w, updated_at := now\<rparr>) (jobs e)"
    and cr: "\<forall>r\<in>set (jobs e). c r \<longrightarrow> (\<exists>row\<in>set (jobs e). ready now row \<and> job_id r = job_id row)"
    by blast
  have "\<not> c r"
  proof
    assume "c r"
    then obtain row where row: "row \<in> set (jobs e)" "ready now row" "job_id r = job_id row"
      using cr assms(2) by blast
    then have "r = row" using distinct_ids_unique [OF assms(1,2)] by blast
    then show False using row(2) assms(3) by (auto simp: ready_def)
  qed
  then have "r \<in> set (snd (fetch_and_lock_next_job w now (jobs e)))"
    unfolding c using assms(2) by (intro update_rows_keeps)
  then show ?thesis using Claim assms(2) jobs_claim [of w now e] by metis
next
  case (Finish w rc err cfg_base now_run now_mark)
  from jobs_finish [of w rc err cfg_base now_run now_mark e]
  show ?thesis
  proof
    assume "jobs (engine_step (Finish w rc err cfg_base now_run now_mark) e) = jobs e"
    then show ?thesis using Finish assms(2) by simp
  next
    assume "\<exists>j s'. map_of (held e) w = Some j \<and>
      finalize j rc err cfg_base now_run now_mark (jobs e) = Inr s' \<and>
      jobs (engine_step (Finish w rc err cfg_base now_run now_mark) e) = s'"
    then obtain j s' where h: "map_of (held e) w = Some j"
      and fin: "finalize j rc err cfg_base now_run now_mark (jobs e) = Inr s'"
      and eq: "jobs (engine_step (Finish w rc err cfg_base now_run now_mark) e) = s'"
      by blast
    from finalize_rows [OF fin] obtain f where
      f: "s' = update_rows (\<lambda>r. job_id r = job_id j) f (jobs e)" by blast
    have "job_id r \<noteq> job_id j" using assms(4) Finish h by simp
    then have "r \<in> set s'" unfolding f using assms(2) by (intro update_rows_keeps)
    then show ?thesis using Finish eq by simp
  qed
next
  case (DlqRetry i now)
  from jobs_dlq_retry [of i now e]
  show ?thesis
  proof
    assume "jobs (engine_step (DlqRetry i now) e) = jobs e"
    then show ?thesis using DlqRetry assms(2) by simp
  next
    assume "\<exists>row. get_job i (jobs e) = Some row \<and>
      jobs (engine_step (DlqRetry i now) e) =
        upsert_job (row\<lparr>state := Pending, attempts := 0, last_error := None,
                        next_run_at := now, updated_at := now, worker_id := None\<rparr>) (jobs e)"
    then obtain row where row: "get_job i (jobs e) = Some row"
      and eq: "jobs (engine_step (DlqRetry i now) e) =
        upsert_job (row\<lparr>state := Pending, attempts := 0, last_error := None,
                        next_run_at := now, updated_at := now, worker_id := None\<rparr>) (jobs e)"
      by blast
    have "job_id row = i" using row get_job_Some by blast
    moreover have "job_id r \<noteq> i" using assms(4) DlqRetry by simp
    ultimately have "r \<in> set (jobs (engine_step (DlqRetry i now) e))"
      unfolding eq using assms(2) by (intro upsert_job_keeps) simp_all
    then show ?thesis using DlqRetry by simp
  qed
qed

lemma run_to_dead_jobs: "jobs (run run_to_dead engine0) = [job_j_dead]"
proof -
  have nr: "next_run (Some 2) 1 4 = Inr 6" by (simp add: next_run_base2 datetime_add_def)
  show ?thesis by (simp add: run_to_dead_def job_j_dead_def run_defs nr)
qed

lemma run_append: "run (evs @ evs') e = run evs' (run evs e)"
  by (induction evs arbitrary: e) simp_all

text \<open>
  C9, as the code has it. In every state reached from the empty store, a job in state
  completed or dead has no worker id, and its row is left as it is by every operation that
  is not addressed to its id: every claim, every recovery at a worker start, and the
  enqueue, dead-letter retry or finalization of another id. A dead-letter retry of the job
  and a re-enqueue of its id do change its state: that is what they are for.
\<close>

theorem terminal_rows_stay:
  assumes "r \<in> set (jobs (run evs engine0))" and "state r = Completed \<or> state r = Dead"
  shows "worker_id r = None \<and>
         (target ev (run evs engine0) \<noteq> Some (job_id r) \<longrightarrow>
            r \<in> set (jobs (engine_step ev (run evs engine0)))) \<and>
         r \<in> set (jobs (engine_step (Claim w now) (run evs engine0))) \<and>
         r \<in> set (jobs (engine_step (WorkerStart w now) (run evs engine0)))"
proof -
  have t: "tidy (run evs engine0)" using tidy_engine0 by (rule tidy_run)
  then have d: "distinct (map job_id (jobs (run evs engine0)))" by (simp add: tidy_def)
  have "worker_id r = None" using t assms by (auto simp: tidy_def)
  moreover have "target ev (run evs engine0) \<noteq> Some (job_id r) \<longrightarrow>
            r \<in> set (jobs (engine_step ev (run evs engine0)))"
    using terminal_row_kept [OF d assms] by blast
  moreover have "r \<in> set (jobs (engine_step (Claim w now) (run evs engine0)))"
    by (rule terminal_row_kept [OF d assms]) simp
  moreover have "r \<in> set (jobs (engine_step (WorkerStart w now) (run evs engine0)))"
    by (rule terminal_row_kept [OF d assms]) simp
  ultimately show ?thesis by blast
qed

theorem terminal_rows_stay_witness:
  "job_j_dead \<in> set (jobs (run run_to_dead engine0)) \<and> state job_j_dead = Dead \<and>
   worker_id job_j_dead = None \<and>
   target (Enqueue ''k'' ''true'' None 3 0 6) (run run_to_dead engine0) \<noteq> Some (job_id job_j_dead) \<and>
   job_j_dead \<in> set (jobs (engine_step (Enqueue ''k'' ''true'' None 3 0 6) (run run_to_dead engine0))) \<and>
   job_j_dead \<in> set (jobs (engine_step (Claim ''w2'' 7) (run run_to_dead engine0))) \<and>
   job_j_dead \<in> set (jobs (engine_step (WorkerStart ''w2'' 7) (run run_to_dead engine0)))"
proof -
  have h1: "job_j_dead \<in> set (jobs (run run_to_dead engine0))" by (simp add: run_to_dead_jobs)
  have h2: "state job_j_dead = Completed \<or> state job_j_dead = Dead" by (simp add: job_j_dead_def)
  have h3: "target (Enqueue ''k'' ''true'' None 3 0 6) (run run_to_dead engine0)
              \<noteq> Some (job_id job_j_dead)"
    by (simp add: job_j_dead_def)
  have h4: "state job_j_dead = Dead" by (simp add: job_j_dead_def)
  show ?thesis
    using h1 h3 h4
      terminal_rows_stay [OF h1 h2, of "Enqueue ''k'' ''true'' None 3 0 6" "''w2''" 7]
    by blast
qed

theorem dlq_retry_leaves_dead_counterexample:
  "map state (jobs (run run_to_dead engine0)) = [Dead] \<and>
   map state (jobs (run (run_to_dead @ [DlqRetry ''j'' 6]) engine0)) = [Pending]"
  by (simp add: run_append run_to_dead_jobs job_j_dead_def dlq_retry_def get_job_def
      upsert_job_def update_rows_def)

section \<open>The worker loop on one job\<close>






























end
